theory Spec2Isabelle
  imports Main "HOL-Library.Word" "HOL-Library.Signed_Division"
begin

unbundle bit_operations_syntax

section \<open>Points and contours (cartotype\_path.h)\<close>

text \<open>
  Modelled from the spec: the declarations of \<open>TPoint\<close>, \<open>TPointType\<close> and
  \<open>TOutlinePoint\<close> live in cartotype\_types.h, which is not among the sources. The spec
  describes an outline point as "a coordinate plus a tag: on-curve, quadratic-control, or
  cubic-control", and cartotype\_path.h speaks of "points with integer coordinates" and
  offsets them by \<open>int32_t\<close> amounts. The coordinates are 32-bit words read as two's
  complement. Equality of points is equality of all their fields.
\<close>

datatype TPointType = OnCurve | Quadratic | Cubic

record TPoint =
  iX :: "32 word"
  iY :: "32 word"

record TOutlinePoint = TPoint +
  iType :: TPointType

text \<open>Passing a \<open>TOutlinePoint\<close> where a \<open>TPoint\<close> is expected keeps the coordinates only.\<close>

definition as_TPoint :: "TOutlinePoint \<Rightarrow> TPoint" where
  "as_TPoint p = \<lparr>iX = iX p, iY = iY p\<rparr>"

text \<open>
  \<open>(a + b) / 2\<close> on \<open>int32_t\<close> values: the sum wraps around in 32 bits (its overflow
  is undefined in C++; two's complement hardware wraps), and the operator \<open>/\<close>
  truncates towards zero. \<open>half\<close> is the division of the sum by 2.
\<close>

definition half :: "32 word \<Rightarrow> 32 word" where
  "half n = word_of_int (sint n sdiv 2)"

definition midpoint :: "TPoint \<Rightarrow> TPoint \<Rightarrow> TPoint" where
  "midpoint a b = \<lparr>iX = half (iX a + iX b), iY = half (iY a + iY b)\<rparr>"

text \<open>
  \<open>TContour\<close>: a view of \<open>iPoints\<close> points with a closed flag and the "may have curves"
  hint; \<open>CContour\<close>: the owning variant (a vector of points and a closed flag).
\<close>

record TContour =
  iPoint :: "TOutlinePoint list"
  iClosed :: bool
  iMayHaveCurves :: bool

record CContour =
  cPoint :: "TOutlinePoint list"
  cClosed :: bool

text \<open>The calls a traversal makes on its traverser, in order.\<close>

datatype call =
    MoveTo TPoint
  | LineTo TPoint
  | QuadraticTo TPoint TPoint
  | CubicTo TPoint TPoint TPoint

subsection \<open>\<open>TContour::Traverse\<close>\<close>

text \<open>
  The loops of \<open>Traverse\<close> walk the pointer \<open>point\<close> up to \<open>limit\<close>. The list argument
  of the two loop functions is the part of the array strictly after \<open>point\<close> up to and
  including \<open>limit\<close>; \<open>point < limit\<close> is "the list is not empty" and \<open>point++\<close>
  takes its head.

  The inner loop merges quadratic control points. Its \<open>continue\<close> after an on-curve
  point continues the inner loop itself, with \<open>v_control\<close> unchanged; a cubic point
  returns from \<open>Traverse\<close> (invalid outline); running out of points emits the closing
  curve to \<open>v_start\<close> and returns.
\<close>

fun quadratic_loop :: "TPoint \<Rightarrow> TPoint \<Rightarrow> TOutlinePoint list \<Rightarrow> call list" where
  "quadratic_loop v_start v_control [] = [QuadraticTo v_control v_start]"
| "quadratic_loop v_start v_control (cur_point # rest) =
     (if iType cur_point = OnCurve then
        QuadraticTo v_control (as_TPoint cur_point) # quadratic_loop v_start v_control rest
      else if iType cur_point \<noteq> Quadratic then []
      else QuadraticTo v_control (midpoint v_control (as_TPoint cur_point))
             # quadratic_loop v_start (as_TPoint cur_point) rest)"

text \<open>
  The outer loop. In the cubic branch \<open>point + 1 > limit\<close> is "nothing follows the
  current point"; the second test there, \<open>point->iType != TPointType::Cubic\<close>, reads the
  current point again. After the loop the contour is closed with a line if it is
  closed and \<open>v_last\<close> differs from \<open>v_start\<close>.
\<close>

fun traverse_loop :: "bool \<Rightarrow> TPoint \<Rightarrow> TPoint \<Rightarrow> TOutlinePoint list \<Rightarrow> call list" where
  "traverse_loop closed v_start v_last [] =
     (if closed \<and> v_last \<noteq> v_start then [LineTo v_start] else [])"
| "traverse_loop closed v_start v_last (point # rest) =
     (case iType point of
        OnCurve \<Rightarrow> LineTo (as_TPoint point) # traverse_loop closed v_start v_last rest
      | Quadratic \<Rightarrow> quadratic_loop v_start (as_TPoint point) rest
      | Cubic \<Rightarrow>
          (if rest = [] \<or> iType point \<noteq> Cubic then []
           else (case rest of
                   [] \<Rightarrow> []
                 | vec2 # rest2 \<Rightarrow>
                     (case rest2 of
                        [] \<Rightarrow> [CubicTo (as_TPoint point) (as_TPoint vec2) v_start]
                      | p3 # rest3 \<Rightarrow>
                          CubicTo (as_TPoint point) (as_TPoint vec2) (as_TPoint p3)
                            # traverse_loop closed v_start v_last rest3))))"

text \<open>
  \<open>Traverse\<close> with \<open>aClip = nullptr\<close> (the default argument): the branch that clips
  first is then not taken. The result is \<open>None\<close> when the assertion "a contour cannot
  start with a cubic control point" fails, and otherwise the calls made.
\<close>

definition Traverse :: "TContour \<Rightarrow> call list option" where
  "Traverse c =
     (let pts = iPoint c in
      if length pts < 2 then Some []
      else if iType (hd pts) = Cubic then None
      else
        let v_start = as_TPoint (hd pts); v_last = as_TPoint (last pts) in
        if iType (hd pts) = Quadratic then
          (if iType (last pts) = OnCurve then
             Some (MoveTo v_last # traverse_loop (iClosed c) v_last v_last (butlast pts))
           else
             let m = midpoint v_start v_last in
             Some (MoveTo m # traverse_loop (iClosed c) m m pts))
        else Some (MoveTo v_start # traverse_loop (iClosed c) v_start v_last (tl pts)))"

subsection \<open>\<open>CContour\<close>\<close>

definition AppendPoint :: "CContour \<Rightarrow> TOutlinePoint \<Rightarrow> CContour" where
  "AppendPoint c aPoint =
     (if cPoint c \<noteq> [] \<and> iType aPoint = OnCurve \<and> aPoint = last (cPoint c) then c
      else c\<lparr>cPoint := cPoint c @ [aPoint]\<rparr>)"

definition Reverse :: "CContour \<Rightarrow> CContour" where
  "Reverse c = c\<lparr>cPoint := rev (cPoint c)\<rparr>"

text \<open>The conversion \<open>operator TContour()\<close> of a \<open>CContour\<close>.\<close>

definition to_TContour :: "CContour \<Rightarrow> TContour" where
  "to_TContour c = \<lparr>iPoint = cPoint c, iClosed = cClosed c, iMayHaveCurves = True\<rparr>"

section \<open>Fixed-point numbers (cartotype\_arithmetic.h)\<close>

text \<open>
  \<open>TFixed\<close> holds one \<open>int32_t\<close>, \<open>iValue\<close>: a 32-bit word read as two's complement.
  Negation and the conversions to \<open>int32_t\<close> wrap around, so that negating \<open>-2^31\<close>
  (undefined in C++) gives \<open>-2^31\<close> again, as two's complement hardware does; the
  intermediate values of type \<open>int64_t\<close> are 64-bit words; \<open>>>\<close> on a signed value is
  the arithmetic shift.
\<close>

record TFixed =
  iValue :: "32 word"

definition RawValue :: "TFixed \<Rightarrow> 32 word" where
  "RawValue f = iValue f"

text \<open>\<open>int64_t(x)\<close> for an \<open>int32_t\<close> value: sign extension.\<close>

definition to_int64 :: "32 word \<Rightarrow> 64 word" where
  "to_int64 x = scast x"

text \<open>\<open>int32_t(x)\<close> and \<open>(uint32_t)x\<close> for an \<open>int64_t\<close> value: the low 32 bits.\<close>

definition to_int32 :: "64 word \<Rightarrow> 32 word" where
  "to_int32 x = ucast x"

text \<open>
  Division of \<open>int64_t\<close> values truncates towards zero, and traps when the divisor is
  zero or the quotient is not representable: \<open>None\<close> is the trap.
\<close>

definition div_int64 :: "64 word \<Rightarrow> 64 word \<Rightarrow> 64 word option" where
  "div_int64 x y =
     (if y = 0 \<or> (sint x = - (2 ^ 63) \<and> sint y = - 1) then None
      else Some (word_of_int (sint x sdiv sint y)))"

text \<open>
  The two steps shared by \<open>operator*=\<close> and \<open>operator/=\<close> that make an operand
  non-negative and record the sign in \<open>s\<close>.
\<close>

definition strip_sign :: "32 word \<Rightarrow> int \<Rightarrow> 32 word \<times> int" where
  "strip_sign v s = (if v <s 0 then (- v, - s) else (v, s))"

text \<open>\<open>TFixed::operator*=(TFixed aB)\<close>: the new value of \<open>*this\<close>.\<close>

definition mul_assign :: "TFixed \<Rightarrow> TFixed \<Rightarrow> TFixed" where
  "mul_assign this aB =
     (if iValue this = 0 \<or> iValue aB = 0x10000 then this
      else if iValue aB = 0 then this\<lparr>iValue := 0\<rparr>
      else
        let (v, s1) = strip_sign (iValue this) 1;
            (b, s) = strip_sign (iValue aB) s1
        in if s > 0
           then this\<lparr>iValue := to_int32 (signed_drop_bit 16 (to_int64 v * to_int64 b + 0x8000))\<rparr>
           else this\<lparr>iValue := to_int32 (- signed_drop_bit 16 (to_int64 v * to_int64 b + 0x8000))\<rparr>)"

text \<open>\<open>TFixed::operator*(TFixed aFixed)\<close>.\<close>

definition times_TFixed :: "TFixed \<Rightarrow> TFixed \<Rightarrow> TFixed" where
  "times_TFixed this aFixed = mul_assign this aFixed"

text \<open>
  \<open>TFixed::operator/=(TFixed aB)\<close>: the new value of \<open>*this\<close>, or \<open>None\<close> if the
  64-bit division traps.
\<close>

definition div_assign :: "TFixed \<Rightarrow> TFixed \<Rightarrow> TFixed option" where
  "div_assign this aB =
     (if iValue this = 0 \<or> iValue aB = 0x10000 then Some this
      else
        let (v, s1) = strip_sign (iValue this) 1;
            (b, s) = strip_sign (iValue aB) s1;
            q = (if b = 0 then Some (0x7FFFFFFF :: 32 word)
                 else map_option to_int32
                        (div_int64 (push_bit 16 (to_int64 v) + to_int64 (signed_drop_bit 1 b))
                                   (to_int64 b)))
        in map_option (\<lambda>q. this\<lparr>iValue := (if s < 0 then - q else q)\<rparr>) q)"

text \<open>\<open>TFixed::operator/(TFixed aFixed)\<close>.\<close>

definition divide_TFixed :: "TFixed \<Rightarrow> TFixed \<Rightarrow> TFixed option" where
  "divide_TFixed this aFixed = div_assign this aFixed"

text \<open>
  The product as the specification words it: sign times the magnitude
  \<open>(|a| * |b| + 0x8000) >> 16\<close>, the sign being \<open>+1\<close> when both operands have the same
  sign, stored as an \<open>int32_t\<close>.
\<close>

definition product_formula :: "TFixed \<Rightarrow> TFixed \<Rightarrow> 32 word" where
  "product_formula a b =
     word_of_int
       ((if (sint (iValue a) < 0) = (sint (iValue b) < 0) then 1 else - 1)
        * ((\<bar>sint (iValue a)\<bar> * \<bar>sint (iValue b)\<bar> + 0x8000) div 2 ^ 16))"

section \<open>Geometry objects (cartotype\_geometry.h)\<close>

text \<open>
  Modelled from the spec: \<open>TCoordType\<close>, \<open>TResult\<close> and \<open>KErrorNone\<close> are declared in
  headers that are not among the sources. Of the coordinate types the sources name
  only \<open>Map\<close>; a result is an unsigned error code and \<open>KErrorNone\<close> is the one that
  \<open>if (error)\<close> takes for success.
\<close>

datatype TCoordType = Degree | Display | Map | MapMeter

type_synonym TResult = nat

definition KErrorNone :: TResult where
  "KErrorNone = 0"

text \<open>
  \<open>CGeneralGeometry<point_t>\<close>, for any point type. Its contour array starts with one
  empty contour.
\<close>

record 'p CGeneralGeometry =
  m_contour_array :: "'p list list"
  m_coord_type :: TCoordType
  m_closed :: bool

definition new_geometry :: "TCoordType \<Rightarrow> bool \<Rightarrow> 'p CGeneralGeometry" where
  "new_geometry aCoordType aClosed =
     \<lparr>m_contour_array = [[]], m_coord_type = aCoordType, m_closed = aClosed\<rparr>"

text \<open>The default constructor.\<close>

definition default_geometry :: "'p CGeneralGeometry" where
  "default_geometry = new_geometry Map False"










definition Reverse_geometry :: "'p CGeneralGeometry \<Rightarrow> 'p CGeneralGeometry" where
  "Reverse_geometry g = g\<lparr>m_contour_array := map rev (rev (m_contour_array g))\<rparr>"

text \<open>
  \<open>ConvertCoords\<close>. The injected function works in place on the coordinate set of one
  contour: it is a function from the contour to its result code and the contour it
  leaves behind. The loop returns the result, the contours as they are left, and the
  arguments of the calls it made, in order.
\<close>

fun convert_loop ::
  "('p list \<Rightarrow> TResult \<times> 'p list) \<Rightarrow> 'p list list \<Rightarrow> TResult \<times> 'p list list \<times> 'p list list" where
  "convert_loop aConvertFunction [] = (KErrorNone, [], [])"
| "convert_loop aConvertFunction (c # cs) =
     (let (error, c') = aConvertFunction c in
      if error \<noteq> 0 then (error, c' # cs, [c])
      else (let (r, cs', calls) = convert_loop aConvertFunction cs
            in (r, c' # cs', c # calls)))"

definition ConvertCoords ::
  "'p CGeneralGeometry \<Rightarrow> TCoordType \<Rightarrow> ('p list \<Rightarrow> TResult \<times> 'p list)
   \<Rightarrow> TResult \<times> 'p CGeneralGeometry \<times> 'p list list" where
  "ConvertCoords g aToCoordType aConvertFunction =
     (if m_coord_type g = aToCoordType then (KErrorNone, g, [])
      else
        let (r, cs, calls) = convert_loop aConvertFunction (m_contour_array g)
        in (r, g\<lparr>m_contour_array := cs, m_coord_type := aToCoordType\<rparr>, calls))"



text \<open>
  Two neighbouring points of a point list that are equal on-curve points.
\<close>

fun adjacent_duplicate :: "TOutlinePoint list \<Rightarrow> bool" where
  "adjacent_duplicate (p # q # rest) =
     ((p = q \<and> iType q = OnCurve) \<or> adjacent_duplicate (q # rest))"
| "adjacent_duplicate _ = False"



section \<open>Traversal of a contour without curves\<close>

lemma traverse_loop_on_curve:
  "\<forall>p \<in> set ps. iType p = OnCurve \<Longrightarrow>
   traverse_loop closed v_start v_last ps =
     map (\<lambda>p. LineTo (as_TPoint p)) ps
       @ (if closed \<and> v_last \<noteq> v_start then [LineTo v_start] else [])"
  by (induction ps) simp_all

text \<open>
  C1. A contour whose points are all on-curve, traversed without a clip region: with
  fewer than two points no traverser function is called; otherwise the calls are
  exactly \<open>MoveTo\<close> the first point, \<open>LineTo\<close> each later point in array order, and one
  final \<open>LineTo\<close> the first point if and only if the contour is closed and its last
  point differs from its first.
\<close>

theorem Traverse_no_curves:
  assumes "\<forall>p \<in> set (iPoint c). iType p = OnCurve"
  shows "Traverse c =
     Some (if length (iPoint c) < 2 then []
           else MoveTo (as_TPoint (hd (iPoint c)))
                  # map (\<lambda>p. LineTo (as_TPoint p)) (tl (iPoint c))
                  @ (if iClosed c \<and> as_TPoint (last (iPoint c)) \<noteq> as_TPoint (hd (iPoint c))
                     then [LineTo (as_TPoint (hd (iPoint c)))] else []))"
proof (cases "length (iPoint c) < 2")
  case True
  then show ?thesis by (simp add: Traverse_def)
next
  case False
  then obtain p ps where pts: "iPoint c = p # ps" and "ps \<noteq> []"
    by (cases "iPoint c") auto
  from assms pts have p: "iType p = OnCurve" and ps: "\<forall>q \<in> set ps. iType q = OnCurve"
    by simp_all
  from pts p \<open>ps \<noteq> []\<close> show ?thesis
    by (simp add: Traverse_def Let_def traverse_loop_on_curve [OF ps])
qed

theorem Traverse_no_curves_witness:
  "Traverse \<lparr>iPoint = [\<lparr>iX = 0, iY = 0, iType = OnCurve\<rparr>,
                         \<lparr>iX = 4, iY = 0, iType = OnCurve\<rparr>,
                         \<lparr>iX = 4, iY = 4, iType = OnCurve\<rparr>],
               iClosed = True, iMayHaveCurves = False\<rparr>
     = Some [MoveTo \<lparr>iX = 0, iY = 0\<rparr>, LineTo \<lparr>iX = 4, iY = 0\<rparr>,
             LineTo \<lparr>iX = 4, iY = 4\<rparr>, LineTo \<lparr>iX = 0, iY = 0\<rparr>]"
  using Traverse_no_curves [of "\<lparr>iPoint = [\<lparr>iX = 0, iY = 0, iType = OnCurve\<rparr>,
                                  \<lparr>iX = 4, iY = 0, iType = OnCurve\<rparr>,
                                  \<lparr>iX = 4, iY = 4, iType = OnCurve\<rparr>],
                        iClosed = True, iMayHaveCurves = False\<rparr>"]
  by (simp add: as_TPoint_def)

section \<open>Appending to and reversing a contour\<close>

lemma adjacent_duplicate_snoc:
  "adjacent_duplicate (ps @ [q]) =
     (adjacent_duplicate ps \<or> (ps \<noteq> [] \<and> last ps = q \<and> iType q = OnCurve))"
  by (induction ps rule: adjacent_duplicate.induct) auto

text \<open>
  C9. \<open>CContour::AppendPoint\<close>: if the contour is not empty and the point is an on-curve
  point equal to the contour's last point, the contour is left as it is; in every other
  case (empty contour, control point, or a point that differs from the last one) the
  point is appended at the end. So appending never creates two equal neighbouring
  on-curve points, while a control point appended twice is kept twice.
\<close>

theorem AppendPoint_cases:
  "(cPoint c \<noteq> [] \<and> iType p = OnCurve \<and> p = last (cPoint c) \<longrightarrow> AppendPoint c p = c)
   \<and> (cPoint c = [] \<or> iType p \<noteq> OnCurve \<or> p \<noteq> last (cPoint c) \<longrightarrow>
        AppendPoint c p = c\<lparr>cPoint := cPoint c @ [p]\<rparr>)
   \<and> (adjacent_duplicate (cPoint (AppendPoint c p)) = adjacent_duplicate (cPoint c))
   \<and> (iType p \<noteq> OnCurve \<longrightarrow>
        cPoint (AppendPoint (AppendPoint c p) p) = cPoint c @ [p, p])"
  by (auto simp: AppendPoint_def adjacent_duplicate_snoc)

theorem AppendPoint_cases_witness:
  "AppendPoint \<lparr>cPoint = [\<lparr>iX = 1, iY = 2, iType = OnCurve\<rparr>], cClosed = False\<rparr>
               \<lparr>iX = 1, iY = 2, iType = OnCurve\<rparr>
     = \<lparr>cPoint = [\<lparr>iX = 1, iY = 2, iType = OnCurve\<rparr>], cClosed = False\<rparr>
   \<and> AppendPoint \<lparr>cPoint = [\<lparr>iX = 1, iY = 2, iType = OnCurve\<rparr>], cClosed = False\<rparr>
                 \<lparr>iX = 1, iY = 3, iType = OnCurve\<rparr>
     = \<lparr>cPoint = [\<lparr>iX = 1, iY = 2, iType = OnCurve\<rparr>, \<lparr>iX = 1, iY = 3, iType = OnCurve\<rparr>],
        cClosed = False\<rparr>
   \<and> cPoint (AppendPoint (AppendPoint \<lparr>cPoint = [], cClosed = True\<rparr>
                                      \<lparr>iX = 5, iY = 5, iType = Quadratic\<rparr>)
                         \<lparr>iX = 5, iY = 5, iType = Quadratic\<rparr>)
     = [\<lparr>iX = 5, iY = 5, iType = Quadratic\<rparr>, \<lparr>iX = 5, iY = 5, iType = Quadratic\<rparr>]"
proof -
  have a: "AppendPoint \<lparr>cPoint = [\<lparr>iX = 1, iY = 2, iType = OnCurve\<rparr>], cClosed = False\<rparr>
               \<lparr>iX = 1, iY = 2, iType = OnCurve\<rparr>
     = \<lparr>cPoint = [\<lparr>iX = 1, iY = 2, iType = OnCurve\<rparr>], cClosed = False\<rparr>"
    using AppendPoint_cases
      [of "\<lparr>cPoint = [\<lparr>iX = 1, iY = 2, iType = OnCurve\<rparr>], cClosed = False\<rparr>"
          "\<lparr>iX = 1, iY = 2, iType = OnCurve\<rparr>", THEN conjunct1]
    by simp
  have b: "AppendPoint \<lparr>cPoint = [\<lparr>iX = 1, iY = 2, iType = OnCurve\<rparr>], cClosed = False\<rparr>
                 \<lparr>iX = 1, iY = 3, iType = OnCurve\<rparr>
     = \<lparr>cPoint = [\<lparr>iX = 1, iY = 2, iType = OnCurve\<rparr>, \<lparr>iX = 1, iY = 3, iType = OnCurve\<rparr>],
        cClosed = False\<rparr>"
    using AppendPoint_cases
      [of "\<lparr>cPoint = [\<lparr>iX = 1, iY = 2, iType = OnCurve\<rparr>], cClosed = False\<rparr>"
          "\<lparr>iX = 1, iY = 3, iType = OnCurve\<rparr>", THEN conjunct2, THEN conjunct1]
    by simp
  have c: "cPoint (AppendPoint (AppendPoint \<lparr>cPoint = [], cClosed = True\<rparr>
                                      \<lparr>iX = 5, iY = 5, iType = Quadratic\<rparr>)
                         \<lparr>iX = 5, iY = 5, iType = Quadratic\<rparr>)
     = [\<lparr>iX = 5, iY = 5, iType = Quadratic\<rparr>, \<lparr>iX = 5, iY = 5, iType = Quadratic\<rparr>]"
    using AppendPoint_cases
      [of "\<lparr>cPoint = [], cClosed = True\<rparr>" "\<lparr>iX = 5, iY = 5, iType = Quadratic\<rparr>",
       THEN conjunct2, THEN conjunct2, THEN conjunct2]
    by simp
  from a b c show ?thesis by blast
qed

text \<open>
  C7. Reversing a contour twice (\<open>CContour::Reverse\<close>), and reversing a geometry twice
  (\<open>CGeneralGeometry::Reverse\<close>), gives back exactly the original: the same points with
  the same types in the same order, and the same open or closed status. One reversal
  of a contour reverses its point list and keeps its status.
\<close>

theorem Reverse_twice:
  "Reverse (Reverse c) = c
   \<and> cPoint (Reverse c) = rev (cPoint c) \<and> cClosed (Reverse c) = cClosed c
   \<and> Reverse_geometry (Reverse_geometry g) = g
   \<and> m_closed (Reverse_geometry g) = m_closed g"
  by (simp add: Reverse_def Reverse_geometry_def rev_map o_def)

section \<open>Traversal of a contour that starts with a quadratic control point\<close>







section \<open>Cubic control points during traversal\<close>












section \<open>Fixed-point multiplication and division\<close>

lemma to_int64_wi: "to_int64 v = word_of_int (sint v)"
  unfolding to_int64_def by (rule scast_eq)

lemma to_int32_wi: "to_int32 (word_of_int k) = word_of_int k"
  unfolding to_int32_def by (rule ucast_down_wi) (simp add: is_down)

lemma sint32_range: "- (2 ^ 31) \<le> sint (v :: 32 word)" "sint (v :: 32 word) < 2 ^ 31"
  using sint_ge [of v] sint_lt [of v] by simp_all

lemma signed_drop_bit_wi64:
  assumes "- (2 ^ 63) \<le> k" "k < 2 ^ 63"
  shows "signed_drop_bit n (word_of_int k :: 64 word) = word_of_int (k div 2 ^ n)"
proof -
  have "sint (word_of_int k :: 64 word) = k"
    using assms by (simp add: sint_sbintrunc' signed_take_bit_int_eq_self)
  then have "sint (signed_drop_bit n (word_of_int k :: 64 word)) = k div 2 ^ n"
    by (simp add: sint_signed_drop_bit_eq drop_bit_eq_div)
  then have "word_of_int (sint (signed_drop_bit n (word_of_int k :: 64 word))) = (word_of_int (k div 2 ^ n) :: 64 word)"
    by simp
  then show ?thesis by simp
qed

lemma sint_neg32:
  assumes "sint (v :: 32 word) \<noteq> - (2 ^ 31)"
  shows "sint (- v) = - sint v"
proof -
  have "sint (- v) = signed_take_bit 31 (- sint v)"
    by (simp add: sint_word_ariths)
  also have "\<dots> = - sint v"
    using assms sint32_range [of v] by (intro signed_take_bit_int_eq_self) simp_all
  finally show ?thesis .
qed

lemma strip_sign_eq:
  assumes "sint v \<noteq> - (2 ^ 31)"
  shows "\<exists>v'. strip_sign v s = (v', if sint v < 0 then - s else s) \<and> sint v' = \<bar>sint v\<bar>"
  using assms by (auto simp: strip_sign_def word_sless_alt sint_neg32)

lemma product_range:
  fixes x y :: int
  assumes "0 \<le> x" "x < 2 ^ 31" "0 \<le> y" "y < 2 ^ 31"
  shows "0 \<le> x * y + 32768" "x * y + 32768 < 2 ^ 63"
proof -
  from assms show "0 \<le> x * y + 32768" by simp
  have "x * y \<le> 2 ^ 31 * 2 ^ 31"
    using assms by (intro mult_mono) simp_all
  then show "x * y + 32768 < 2 ^ 63" by simp
qed

lemma mul_general:
  assumes "0 \<le> sint v" "0 \<le> sint b"
  shows "to_int32 (signed_drop_bit 16 (to_int64 v * to_int64 b + 0x8000))
           = word_of_int ((sint v * sint b + 32768) div 2 ^ 16)"
    and "to_int32 (- signed_drop_bit 16 (to_int64 v * to_int64 b + 0x8000))
           = word_of_int (- ((sint v * sint b + 32768) div 2 ^ 16))"
proof -
  have "to_int64 v * to_int64 b + 0x8000 = (word_of_int (sint v * sint b + 32768) :: 64 word)"
    by (simp add: to_int64_wi)
  moreover have "- (2 ^ 63) \<le> sint v * sint b + 32768" "sint v * sint b + 32768 < 2 ^ 63"
    using product_range [OF assms(1) sint32_range(2) assms(2) sint32_range(2)] by simp_all
  ultimately have *: "signed_drop_bit 16 (to_int64 v * to_int64 b + 0x8000)
      = (word_of_int ((sint v * sint b + 32768) div 2 ^ 16) :: 64 word)"
    by (simp only: signed_drop_bit_wi64)
  show "to_int32 (signed_drop_bit 16 (to_int64 v * to_int64 b + 0x8000))
           = word_of_int ((sint v * sint b + 32768) div 2 ^ 16)"
    by (simp only: * to_int32_wi)
  have "- (word_of_int ((sint v * sint b + 32768) div 2 ^ 16) :: 64 word)
         = word_of_int (- ((sint v * sint b + 32768) div 2 ^ 16))"
    by simp
  then show "to_int32 (- signed_drop_bit 16 (to_int64 v * to_int64 b + 0x8000))
           = word_of_int (- ((sint v * sint b + 32768) div 2 ^ 16))"
    by (simp only: * to_int32_wi)
qed


lemma round_unit:
  fixes A :: int
  shows "(A * 65536 + 32768) div 65536 = A"
  by simp

lemma mul_assign_formula:
  assumes "sint (iValue a) \<noteq> - (2 ^ 31)" and "sint (iValue b) \<noteq> - (2 ^ 31)"
  shows "iValue (mul_assign a b) = product_formula a b"
proof -
  consider (zero) "iValue a = 0"
    | (unit) "iValue a \<noteq> 0" "iValue b = 0x10000"
    | (bzero) "iValue a \<noteq> 0" "iValue b = 0"
    | (general) "iValue a \<noteq> 0" "iValue b \<noteq> 0x10000" "iValue b \<noteq> 0"
    by blast
  then show ?thesis
  proof cases
    case zero
    then show ?thesis
      by (simp add: mul_assign_def product_formula_def)
  next
    case unit
    have "sint (iValue b) = 65536" using unit(2) by simp
    then have "product_formula a b = word_of_int (sint (iValue a))"
      by (simp add: product_formula_def round_unit)
    then show ?thesis using unit
      by (simp add: mul_assign_def)
  next
    case bzero
    then show ?thesis
      by (simp add: mul_assign_def product_formula_def)
  next
    case general
    from strip_sign_eq [OF assms(1), of 1] obtain v
      where v: "strip_sign (iValue a) 1 = (v, if sint (iValue a) < 0 then - 1 else 1)"
        and sv: "sint v = \<bar>sint (iValue a)\<bar>" by blast
    from strip_sign_eq [OF assms(2), of "if sint (iValue a) < 0 then - 1 else 1"] obtain w
      where w: "strip_sign (iValue b) (if sint (iValue a) < 0 then - 1 else 1)
                  = (w, if sint (iValue b) < 0 then - (if sint (iValue a) < 0 then - 1 else 1)
                        else (if sint (iValue a) < 0 then - 1 else 1))"
        and sw: "sint w = \<bar>sint (iValue b)\<bar>" by blast
    have nn: "0 \<le> sint v" "0 \<le> sint w" using sv sw by simp_all
    note g = mul_general [OF nn]
    show ?thesis
      using general v w
      by (simp add: mul_assign_def product_formula_def g sv sw)
  qed
qed


text \<open>
  C5, as amended. For all \<open>TFixed\<close> values \<open>a\<close> and \<open>b\<close> whose raw values are not
  \<open>-2^31\<close>, the raw value of the product \<open>a * b\<close> is
  \<open>s * ((|a| * |b| + 0x8000) >> 16)\<close> computed without loss and then stored as an
  \<open>int32_t\<close>, where \<open>s\<close> is \<open>+1\<close> if the raw values have the same sign and \<open>-1\<close>
  otherwise: the fast paths for a zero operand and for the multiplier 1.0 agree with
  the general path.
\<close>

theorem times_TFixed_formula:
  assumes "sint (RawValue a) \<noteq> - (2 ^ 31)" and "sint (RawValue b) \<noteq> - (2 ^ 31)"
  shows "RawValue (times_TFixed a b) = product_formula a b"
  using assms mul_assign_formula [of a b]
  by (simp add: RawValue_def times_TFixed_def)

theorem times_TFixed_formula_witness:
  "RawValue (times_TFixed \<lparr>iValue = - 5\<rparr> \<lparr>iValue = 0x18000\<rparr>)
     = product_formula \<lparr>iValue = - 5\<rparr> \<lparr>iValue = 0x18000\<rparr>"
  using times_TFixed_formula [of "\<lparr>iValue = - 5\<rparr>" "\<lparr>iValue = 0x18000\<rparr>"]
  by (simp add: RawValue_def)

text \<open>
  The claim as it stands fails at the raw value \<open>-2^31\<close> (the number -32768.0), which
  negation leaves unchanged: times the raw value 1 the code gives the raw value
  \<open>+0x8000\<close>, the formula \<open>-0x8000\<close>.
\<close>

theorem times_TFixed_formula_counterexample:
  "RawValue (times_TFixed \<lparr>iValue = 0x80000000\<rparr> \<lparr>iValue = 1\<rparr>) = 0x8000
   \<and> product_formula \<lparr>iValue = 0x80000000\<rparr> \<lparr>iValue = 1\<rparr> = 0xFFFF8000
   \<and> RawValue (times_TFixed \<lparr>iValue = 0x80000000\<rparr> \<lparr>iValue = 1\<rparr>)
       \<noteq> product_formula \<lparr>iValue = 0x80000000\<rparr> \<lparr>iValue = 1\<rparr>"
  by code_simp

lemma sint_to_int64: "sint (to_int64 v) = sint v"
  unfolding to_int64_def by (rule sint_up_scast) (simp add: is_up)

lemma sint_wi32:
  assumes "- (2 ^ 31) \<le> k" "k < 2 ^ 31"
  shows "sint (word_of_int k :: 32 word) = k"
  using assms by (simp add: sint_sbintrunc' signed_take_bit_int_eq_self)

lemma sint_wi64:
  assumes "- (2 ^ 63) \<le> k" "k < 2 ^ 63"
  shows "sint (word_of_int k :: 64 word) = k"
  using assms by (simp add: sint_sbintrunc' signed_take_bit_int_eq_self)

lemma sint32_eq_0_iff: "sint (w :: 32 word) = 0 \<longleftrightarrow> w = 0"
proof
  assume "sint w = 0"
  then have "word_of_int (sint w) = (word_of_int 0 :: 32 word)" by simp
  then show "w = 0" by simp
qed simp

lemma to_int64_eq_0_iff: "to_int64 w = 0 \<longleftrightarrow> w = 0"
proof
  assume "to_int64 w = 0"
  then have "sint (to_int64 w) = 0" by simp
  then show "w = 0" by (simp add: sint_to_int64 sint32_eq_0_iff)
next
  assume "w = 0"
  then show "to_int64 w = 0" by (simp add: to_int64_def)
qed

lemma strip_sign_not_minus_one:
  assumes "strip_sign b s = (w, s')"
  shows "sint w \<noteq> - 1"
proof
  assume m: "sint w = - 1"
  then have "word_of_int (sint w) = (word_of_int (- 1) :: 32 word)" by simp
  then have w: "w = - 1" by simp
  show False
  proof (cases "b <s 0")
    case True
    with assms have "w = - b" by (simp add: strip_sign_def)
    with w have "b = 1" by (metis minus_minus)
    with True show False by (simp add: word_sless_alt)
  next
    case False
    with assms have "w = b" by (simp add: strip_sign_def)
    with False m show False by (simp add: word_sless_alt)
  qed
qed

lemma div_int64_total:
  assumes "strip_sign b s = (w, s')" "w \<noteq> 0"
  shows "div_int64 x (to_int64 w) = Some (word_of_int (sint x sdiv sint w))"
  using assms strip_sign_not_minus_one [OF assms(1)]
  by (simp add: div_int64_def to_int64_eq_0_iff sint_to_int64)

lemma div_assign_total: "div_assign a b \<noteq> None"
proof (cases "iValue a = 0 \<or> iValue b = 0x10000")
  case True
  then show ?thesis by (auto simp: div_assign_def)
next
  case False
  obtain v s1 where v: "strip_sign (iValue a) 1 = (v, s1)" by (cases "strip_sign (iValue a) 1")
  obtain w s where w: "strip_sign (iValue b) s1 = (w, s)" by (cases "strip_sign (iValue b) s1")
  show ?thesis
  proof (cases "w = 0")
    case True
    with False v w show ?thesis by (simp add: div_assign_def)
  next
    case nz: False
    from False v w nz show ?thesis
      by (simp add: div_assign_def div_int64_total [OF w nz])
  qed
qed


text \<open>
  C4, as amended. Dividing a \<open>TFixed\<close> value \<open>a\<close> by one whose raw value is zero does
  not trap. For every \<open>a\<close> other than zero the quotient has the largest magnitude,
  raw value \<open>0x7FFFFFFF\<close>, negated exactly when \<open>a\<close> is negative; for \<open>a\<close> zero the
  quotient is zero, since a zero dividend is returned as it is.
\<close>

theorem divide_TFixed_by_zero:
  assumes "iValue b = 0"
  shows "(iValue a \<noteq> 0 \<longrightarrow>
            divide_TFixed a b =
              Some (a\<lparr>iValue := (if iValue a <s 0 then - 0x7FFFFFFF else 0x7FFFFFFF)\<rparr>))
       \<and> (iValue a = 0 \<longrightarrow> divide_TFixed a b = Some a)"
  using assms
  by (simp add: divide_TFixed_def div_assign_def strip_sign_def)

theorem divide_TFixed_by_zero_witness:
  "divide_TFixed \<lparr>iValue = - 7\<rparr> \<lparr>iValue = 0\<rparr> = Some \<lparr>iValue = - 0x7FFFFFFF\<rparr>
   \<and> divide_TFixed \<lparr>iValue = 7\<rparr> \<lparr>iValue = 0\<rparr> = Some \<lparr>iValue = 0x7FFFFFFF\<rparr>"
proof -
  have n: "divide_TFixed \<lparr>iValue = - 7\<rparr> \<lparr>iValue = 0\<rparr> = Some \<lparr>iValue = - 0x7FFFFFFF\<rparr>"
    using divide_TFixed_by_zero [of "\<lparr>iValue = 0\<rparr>" "\<lparr>iValue = - 7\<rparr>", THEN conjunct1]
    by (simp add: word_sless_alt)
  have p: "divide_TFixed \<lparr>iValue = 7\<rparr> \<lparr>iValue = 0\<rparr> = Some \<lparr>iValue = 0x7FFFFFFF\<rparr>"
    using divide_TFixed_by_zero [of "\<lparr>iValue = 0\<rparr>" "\<lparr>iValue = 7\<rparr>", THEN conjunct1]
    by (simp add: word_sless_alt)
  from n p show ?thesis by blast
qed

text \<open>
  The claim as it stands fails for the dividend zero: zero divided by zero is zero, not
  the raw value \<open>0x7FFFFFFF\<close>.
\<close>

theorem divide_TFixed_by_zero_counterexample:
  "divide_TFixed \<lparr>iValue = 0\<rparr> \<lparr>iValue = 0\<rparr> = Some \<lparr>iValue = 0\<rparr>
   \<and> (0 :: 32 word) \<noteq> 0x7FFFFFFF"
  by (simp add: divide_TFixed_def div_assign_def)

lemma div_general:
  assumes "0 \<le> sint v" "0 < sint w"
  shows "push_bit 16 (to_int64 v) + to_int64 (signed_drop_bit 1 w)
           = word_of_int (sint v * 65536 + sint w div 2)"
    and "sint (push_bit 16 (to_int64 v) + to_int64 (signed_drop_bit 1 w))
           = sint v * 65536 + sint w div 2"
proof -
  show e: "push_bit 16 (to_int64 v) + to_int64 (signed_drop_bit 1 w)
           = word_of_int (sint v * 65536 + sint w div 2)"
    by (simp add: to_int64_wi push_bit_eq_mult sint_signed_drop_bit_eq drop_bit_eq_div)
  have "0 \<le> sint v * 65536 + sint w div 2"
    using assms by simp
  moreover have "sint v * 65536 + sint w div 2 < 2 ^ 63"
    using sint32_range(2) [of v] sint32_range(2) [of w] by simp
  ultimately show "sint (push_bit 16 (to_int64 v) + to_int64 (signed_drop_bit 1 w))
           = sint v * 65536 + sint w div 2"
    unfolding e by (intro sint_wi64) simp_all
qed

lemma sdiv_nonneg:
  fixes n d :: int
  assumes "0 \<le> n" "0 < d"
  shows "n sdiv d = n div d"
proof (cases "n = 0")
  case True
  then show ?thesis by simp
next
  case False
  with assms have "sgn n = 1" "sgn d = 1" by simp_all
  with assms show ?thesis by (simp add: signed_divide_int_def)
qed

lemma half_div_self:
  fixes B :: int
  assumes "0 < B"
  shows "(B div 2) div B = 0"
  using assms by (intro div_pos_pos_trivial) simp_all

lemma div_assign_formula:
  assumes "sint (iValue x) \<noteq> - (2 ^ 31)" and "sint (iValue b) \<noteq> - (2 ^ 31)"
    and "iValue b \<noteq> 0"
  shows "div_assign x b =
     Some (x\<lparr>iValue := word_of_int
              ((if (sint (iValue x) < 0) = (sint (iValue b) < 0) then 1 else - 1)
               * ((\<bar>sint (iValue x)\<bar> * 65536 + \<bar>sint (iValue b)\<bar> div 2)
                    div \<bar>sint (iValue b)\<bar>))\<rparr>)"
proof -
  have bnz: "sint (iValue b) \<noteq> 0" using assms(3) by (simp add: sint32_eq_0_iff)
  consider (zero) "iValue x = 0"
    | (unit) "iValue x \<noteq> 0" "iValue b = 0x10000"
    | (general) "iValue x \<noteq> 0" "iValue b \<noteq> 0x10000"
    by blast
  then show ?thesis
  proof cases
    case zero
    have "(\<bar>sint (iValue b)\<bar> div 2) div \<bar>sint (iValue b)\<bar> = 0"
      using bnz by (intro half_div_self) simp
    with zero show ?thesis
      by (simp add: div_assign_def)
  next
    case unit
    have "sint (iValue b) = 65536" using unit(2) by simp
    then have "word_of_int
              ((if (sint (iValue x) < 0) = (sint (iValue b) < 0) then 1 else - 1)
               * ((\<bar>sint (iValue x)\<bar> * 65536 + \<bar>sint (iValue b)\<bar> div 2)
                    div \<bar>sint (iValue b)\<bar>)) = iValue x"
      by (simp add: round_unit)
    with unit show ?thesis
      by (simp add: div_assign_def)
  next
    case general
    from strip_sign_eq [OF assms(1), of 1] obtain v
      where v: "strip_sign (iValue x) 1 = (v, if sint (iValue x) < 0 then - 1 else 1)"
        and sv: "sint v = \<bar>sint (iValue x)\<bar>" by blast
    from strip_sign_eq [OF assms(2), of "if sint (iValue x) < 0 then - 1 else 1"] obtain w
      where w: "strip_sign (iValue b) (if sint (iValue x) < 0 then - 1 else 1)
                  = (w, if sint (iValue b) < 0 then - (if sint (iValue x) < 0 then - 1 else 1)
                        else (if sint (iValue x) < 0 then - 1 else 1))"
        and sw: "sint w = \<bar>sint (iValue b)\<bar>" by blast
    have nn: "0 \<le> sint v" "0 < sint w" using sv sw bnz by simp_all
    have wnz: "w \<noteq> 0" using nn(2) by auto
    have q: "map_option to_int32
               (div_int64 (push_bit 16 (to_int64 v) + to_int64 (signed_drop_bit 1 w)) (to_int64 w))
             = Some (word_of_int ((sint v * 65536 + sint w div 2) div sint w))"
    proof -
      have "sint (push_bit 16 (to_int64 v) + to_int64 (signed_drop_bit 1 w)) sdiv sint w
              = (sint v * 65536 + sint w div 2) div sint w"
        unfolding div_general(2) [OF nn] using nn by (intro sdiv_nonneg) simp_all
      then show ?thesis
        by (simp only: div_int64_total [OF w wnz] option.map to_int32_wi)
    qed
    show ?thesis
      using general v w wnz
      by (simp add: div_assign_def q sv sw del: One_nat_def)
  qed
qed


lemma round_trip_int:
  fixes A B :: int
  assumes A: "0 \<le> A" and B: "21846 \<le> B"
  defines "P \<equiv> (A * B + 32768) div 65536"
  defines "Q \<equiv> (P * 65536 + B div 2) div B"
  shows "0 \<le> P" and "0 \<le> Q" and "A - 1 \<le> Q" and "Q \<le> A + 1"
proof -
  have AB: "0 \<le> A * B" using A B by simp
  then show P0: "0 \<le> P" unfolding P_def by simp
  have "0 \<le> (A * B + 32768) mod 65536" "(A * B + 32768) mod 65536 < 65536" by simp_all
  then have p_lo: "P * 65536 \<le> A * B + 32768" and p_hi: "A * B + 32768 < P * 65536 + 65536"
    unfolding P_def using div_mult_mod_eq [of "A * B + 32768" 65536] by linarith+
  have N0: "0 \<le> P * 65536 + B div 2" using P0 B by simp
  then show Q0: "0 \<le> Q" unfolding Q_def using B by (simp add: pos_imp_zdiv_nonneg_iff)
  have "0 \<le> (P * 65536 + B div 2) mod B" "(P * 65536 + B div 2) mod B < B"
    using B by simp_all
  then have q_lo: "Q * B \<le> P * 65536 + B div 2" and q_hi: "P * 65536 + B div 2 < Q * B + B"
    unfolding Q_def using div_mult_mod_eq [of "P * 65536 + B div 2" B] by linarith+
  have half: "32769 \<le> B + B div 2" "2 * B - B div 2 \<ge> 32769" using B by simp_all
  show "A - 1 \<le> Q"
  proof (rule ccontr)
    assume "\<not> A - 1 \<le> Q"
    then have "Q \<le> A - 2" by simp
    then have "Q * B \<le> (A - 2) * B" using B by (intro mult_right_mono) simp_all
    then show False using q_hi p_hi half B by (simp add: algebra_simps)
  qed
  show "Q \<le> A + 1"
  proof (rule ccontr)
    assume "\<not> Q \<le> A + 1"
    then have "A + 2 \<le> Q" by simp
    then have "(A + 2) * B \<le> Q * B" using B by (intro mult_right_mono) simp_all
    then show False using q_lo p_lo half B by (simp add: algebra_simps)
  qed
qed

lemma product_range_wide:
  fixes x y :: int
  assumes "- (2 ^ 31) \<le> x" "x < 2 ^ 31" "- (2 ^ 31) \<le> y" "y < 2 ^ 31"
  shows "- (2 ^ 63) \<le> x * y + 32768" "x * y + 32768 < 2 ^ 63"
proof -
  have "\<bar>x\<bar> \<le> 2 ^ 31" "\<bar>y\<bar> \<le> 2 ^ 31" using assms by simp_all
  then have "\<bar>x\<bar> * \<bar>y\<bar> \<le> 2 ^ 31 * 2 ^ 31" by (intro mult_mono) simp_all
  then have "\<bar>x * y\<bar> \<le> 2 ^ 62" by (simp add: abs_mult)
  then show "- (2 ^ 63) \<le> x * y + 32768" "x * y + 32768 < 2 ^ 63" by simp_all
qed

lemma mul_wide:
  "to_int32 (signed_drop_bit 16 (to_int64 v * to_int64 b + 0x8000))
     = word_of_int ((sint v * sint b + 32768) div 2 ^ 16)"
  "to_int32 (- signed_drop_bit 16 (to_int64 v * to_int64 b + 0x8000))
     = word_of_int (- ((sint v * sint b + 32768) div 2 ^ 16))"
proof -
  have "to_int64 v * to_int64 b + 0x8000 = (word_of_int (sint v * sint b + 32768) :: 64 word)"
    by (simp add: to_int64_wi)
  moreover have "- (2 ^ 63) \<le> sint v * sint b + 32768" "sint v * sint b + 32768 < 2 ^ 63"
    using product_range_wide [OF sint32_range [of v] sint32_range [of b]] by simp_all
  ultimately have *: "signed_drop_bit 16 (to_int64 v * to_int64 b + 0x8000)
      = (word_of_int ((sint v * sint b + 32768) div 2 ^ 16) :: 64 word)"
    by (simp only: signed_drop_bit_wi64)
  show "to_int32 (signed_drop_bit 16 (to_int64 v * to_int64 b + 0x8000))
           = word_of_int ((sint v * sint b + 32768) div 2 ^ 16)"
    by (simp only: * to_int32_wi)
  have "- (word_of_int ((sint v * sint b + 32768) div 2 ^ 16) :: 64 word)
         = word_of_int (- ((sint v * sint b + 32768) div 2 ^ 16))"
    by simp
  then show "to_int32 (- signed_drop_bit 16 (to_int64 v * to_int64 b + 0x8000))
           = word_of_int (- ((sint v * sint b + 32768) div 2 ^ 16))"
    by (simp only: * to_int32_wi)
qed

lemma strip_sign_min: "strip_sign (0x80000000 :: 32 word) s = (0x80000000, - s)"
  by (simp add: strip_sign_def word_sless_alt)

lemma round_unit_shift:
  fixes k :: int
  shows "(32768 + k * 65536) div 65536 = k"
  by simp

lemma min_product_int:
  fixes A :: int
  shows "(A * - 2147483648 + 32768) div 2 ^ 16 = - (A * 32768)"
proof -
  have "A * - 2147483648 + 32768 = 32768 + (- (A * 32768)) * 65536" by simp
  then have "(A * - 2147483648 + 32768) div 65536 = - (A * 32768)"
    by (simp only: round_unit_shift)
  then show ?thesis by simp
qed

lemma mul_assign_min:
  assumes b: "iValue b = 0x80000000" and a: "\<bar>sint (iValue a)\<bar> < 65536"
  shows "iValue (mul_assign a b) = word_of_int (sint (iValue a) * 32768)"
proof (cases "iValue a = 0")
  case True
  then show ?thesis by (simp add: mul_assign_def)
next
  case False
  have amin: "sint (iValue a) \<noteq> - (2 ^ 31)" using a by auto
  from strip_sign_eq [OF amin, of 1] obtain v
    where v: "strip_sign (iValue a) 1 = (v, if sint (iValue a) < 0 then - 1 else 1)"
      and sv: "sint v = \<bar>sint (iValue a)\<bar>" by blast
  have sb: "sint (0x80000000 :: 32 word) = - 2147483648" by simp
  have M: "(sint v * sint (0x80000000 :: 32 word) + 32768) div 2 ^ 16 = - (sint v * 32768)"
    unfolding sb by (rule min_product_int)
  have pos: "to_int32 (signed_drop_bit 16 (to_int64 v * to_int64 0x80000000 + 0x8000))
               = word_of_int (- (sint v * 32768))"
    and neg: "to_int32 (- signed_drop_bit 16 (to_int64 v * to_int64 0x80000000 + 0x8000))
               = word_of_int (- (- (sint v * 32768)))"
    by (simp_all only: mul_wide M)
  show ?thesis
  proof (cases "sint (iValue a) < 0")
    case True
    with sv have e: "- (sint v * 32768) = sint (iValue a) * 32768" by simp
    have "to_int32 (signed_drop_bit 16 (to_int64 v * to_int64 0x80000000 + 0x8000))
               = word_of_int (sint (iValue a) * 32768)"
      unfolding pos e ..
    with False b v True show ?thesis
      by (simp add: mul_assign_def strip_sign_min del: of_int_mult)
  next
    case nonneg: False
    with sv have e: "- (- (sint v * 32768)) = sint (iValue a) * 32768" by simp
    have "to_int32 (- signed_drop_bit 16 (to_int64 v * to_int64 0x80000000 + 0x8000))
               = word_of_int (sint (iValue a) * 32768)"
      unfolding neg e ..
    with False b v nonneg show ?thesis
      by (simp add: mul_assign_def strip_sign_min del: of_int_mult)
  qed
qed

lemma div_general_wide:
  assumes "0 \<le> sint v"
  shows "sint (push_bit 16 (to_int64 v) + to_int64 (signed_drop_bit 1 w))
           = sint v * 65536 + sint w div 2"
proof -
  have e: "push_bit 16 (to_int64 v) + to_int64 (signed_drop_bit 1 w)
           = word_of_int (sint v * 65536 + sint w div 2)"
    by (simp add: to_int64_wi push_bit_eq_mult sint_signed_drop_bit_eq drop_bit_eq_div)
  have "- (2 ^ 63) \<le> sint v * 65536 + sint w div 2"
    using assms sint32_range(1) [of w] by simp
  moreover have "sint v * 65536 + sint w div 2 < 2 ^ 63"
    using sint32_range(2) [of v] sint32_range(2) [of w] by simp
  ultimately show ?thesis
    unfolding e by (intro sint_wi64) simp_all
qed

lemma min_quotient_int:
  fixes K :: int
  assumes "1 \<le> K"
  shows "(K * 32768 * 65536 + - 2147483648 div 2) sdiv - 2147483648 = - (K - 1)"
proof -
  have n: "K * 32768 * 65536 + - 2147483648 div 2 = 1073741824 + (K - 1) * 2147483648"
    by simp
  have pos: "0 < 1073741824 + (K - 1) * 2147483648" using assms by simp
  have "(1073741824 + (K - 1) * 2147483648) div 2147483648 = K - 1" by simp
  with pos show ?thesis
    unfolding n by (simp add: signed_divide_int_def)
qed

lemma div_assign_min:
  assumes b: "iValue b = 0x80000000"
    and x: "sint (iValue x) = k * 32768" and k: "\<bar>k\<bar> < 65536"
  shows "\<exists>r. div_assign x b = Some r \<and> \<bar>sint (iValue r) - k\<bar> \<le> 1"
proof (cases "k = 0")
  case True
  with x have "iValue x = 0" by (simp add: sint32_eq_0_iff)
  with True show ?thesis by (simp add: div_assign_def)
next
  case False
  have xnz: "iValue x \<noteq> 0" using x False by auto
  have xmin: "sint (iValue x) \<noteq> - (2 ^ 31)" using x k by auto
  from strip_sign_eq [OF xmin, of 1] obtain v
    where v: "strip_sign (iValue x) 1 = (v, if sint (iValue x) < 0 then - 1 else 1)"
      and sv: "sint v = \<bar>sint (iValue x)\<bar>" by blast
  define K where "K = \<bar>k\<bar>"
  have K1: "1 \<le> K" "K < 65536" using False k by (simp_all add: K_def)
  have svK: "sint v = K * 32768" using sv x by (simp add: K_def abs_mult)
  define w :: "32 word" where "w = 0x80000000"
  let ?s = "- (if sint (iValue x) < 0 then - 1 else 1 :: int)"
  have bw: "iValue b = w" using b by (simp add: w_def)
  have w: "strip_sign w (if sint (iValue x) < 0 then - 1 else 1) = (w, ?s)"
    unfolding w_def by (rule strip_sign_min)
  have wnz: "w \<noteq> 0" and w1: "w \<noteq> 0x10000" by (simp_all add: w_def)
  have sw: "sint w = - 2147483648" by (simp add: w_def)
  have "0 \<le> sint v" using svK K1 by simp
  from div_general_wide [OF this, of w]
  have sX: "sint (push_bit 16 (to_int64 v) + to_int64 (signed_drop_bit 1 w))
              = K * 32768 * 65536 + - 2147483648 div 2"
    by (simp only: svK sw)
  have quo: "div_int64 (push_bit 16 (to_int64 v) + to_int64 (signed_drop_bit 1 w)) (to_int64 w)
               = Some (word_of_int (- (K - 1)))"
    by (simp only: div_int64_total [OF w wnz] sX sw min_quotient_int [OF K1(1)])
  define q :: "32 word" where "q = word_of_int (- (K - 1))"
  have q: "map_option to_int32
             (div_int64 (push_bit 16 (to_int64 v) + to_int64 (signed_drop_bit 1 w)) (to_int64 w))
           = Some q"
    by (simp only: quo option.map to_int32_wi q_def)
  have sq: "sint q = - (K - 1)"
    unfolding q_def using K1 by (intro sint_wi32) simp_all
  have qmin: "sint q \<noteq> - (2 ^ 31)" using sq K1 by simp
  have d: "div_assign x b = Some (x\<lparr>iValue := (if ?s < 0 then - q else q)\<rparr>)"
    using xnz v w wnz w1
    by (simp add: div_assign_def bw q del: One_nat_def)
  have r: "sint (if ?s < 0 then - q else q) = (if k < 0 then k + 1 else k - 1)"
  proof (cases "k < 0")
    case True
    then have "sint (iValue x) < 0" using x by simp
    with True show ?thesis by (simp add: sq K_def)
  next
    case nonneg: False
    with \<open>k \<noteq> 0\<close> have "0 < k" by simp
    then have "\<not> sint (iValue x) < 0" using x by simp
    with nonneg show ?thesis by (simp add: sint_neg32 [OF qmin] sq K_def)
  qed
  show ?thesis
  proof (intro exI conjI)
    show "div_assign x b = Some (x\<lparr>iValue := (if ?s < 0 then - q else q)\<rparr>)" by (rule d)
    show "\<bar>sint (iValue (x\<lparr>iValue := (if ?s < 0 then - q else q)\<rparr>)) - k\<bar> \<le> 1"
      using r by (simp del: One_nat_def)
  qed
qed

lemma round_trip_in_range:
  assumes a: "sint (iValue a) \<noteq> - (2 ^ 31)" and b: "sint (iValue b) \<noteq> - (2 ^ 31)"
    and big: "21846 \<le> \<bar>sint (iValue b)\<bar>"
    and fits: "(\<bar>sint (iValue a)\<bar> * \<bar>sint (iValue b)\<bar> + 32768) div 65536 < 2 ^ 31"
    and qfits: "((\<bar>sint (iValue a)\<bar> * \<bar>sint (iValue b)\<bar> + 32768) div 65536 * 65536
                  + \<bar>sint (iValue b)\<bar> div 2) div \<bar>sint (iValue b)\<bar> < 2 ^ 31"
  shows "\<exists>r. divide_TFixed (times_TFixed a b) b = Some r
             \<and> \<bar>sint (RawValue r) - sint (RawValue a)\<bar> \<le> 1"
proof -
  define A where "A = \<bar>sint (iValue a)\<bar>"
  define B where "B = \<bar>sint (iValue b)\<bar>"
  define P where "P = (A * B + 32768) div 65536"
  define Q where "Q = (P * 65536 + B div 2) div B"
  define s :: int where "s = (if (sint (iValue a) < 0) = (sint (iValue b) < 0) then 1 else - 1)"
  define x where "x = times_TFixed a b"
  have A0: "0 \<le> A" and B1: "21846 \<le> B" using big by (simp_all add: A_def B_def)
  have rt: "0 \<le> P" "0 \<le> Q" "A - 1 \<le> Q" "Q \<le> A + 1"
    unfolding Q_def P_def using round_trip_int [OF A0 B1] by blast+
  have P31: "P < 2 ^ 31" using fits by (simp add: P_def A_def B_def)
  have Q31: "Q < 2 ^ 31" using qfits by (simp add: Q_def P_def A_def B_def)
  have ix: "iValue x = word_of_int (s * P)"
    using mul_assign_formula [OF a b]
    by (simp add: x_def times_TFixed_def product_formula_def s_def P_def A_def B_def)
  have sP: "- (2 ^ 31) < s * P" "s * P < 2 ^ 31"
    using rt(1) P31 by (simp_all add: s_def)
  have sx: "sint (iValue x) = s * P"
    unfolding ix using sP by (intro sint_wi32) simp_all
  have absx: "\<bar>sint (iValue x)\<bar> = P"
    using rt(1) by (simp add: sx s_def)
  have xmin: "sint (iValue x) \<noteq> - (2 ^ 31)" using sP sx by simp
  have bnz: "iValue b \<noteq> 0" using big by auto
  define s' :: int where "s' = (if (sint (iValue x) < 0) = (sint (iValue b) < 0) then 1 else - 1)"
  define q :: "32 word" where "q = word_of_int (s' * Q)"
  have d: "div_assign x b = Some (x\<lparr>iValue := q\<rparr>)"
    using div_assign_formula [OF xmin b bnz]
    by (simp only: absx s'_def Q_def B_def q_def)
  have "- (2 ^ 31) \<le> s' * Q" "s' * Q < 2 ^ 31"
    using rt(2) Q31 by (simp_all add: s'_def)
  then have sr: "sint q = s' * Q"
    unfolding q_def by (rule sint_wi32)
  have close: "\<bar>s' * Q - sint (iValue a)\<bar> \<le> 1"
  proof (cases "P = 0")
    case True
    have "(B div 2) div B = 0" using B1 by (intro half_div_self) simp
    with True have "Q = 0" by (simp add: Q_def)
    with rt(3) have "A \<le> 1" by simp
    with \<open>Q = 0\<close> show ?thesis by (simp add: A_def)
  next
    case False
    with rt(1) have P0: "0 < P" by simp
    have "(sint (iValue x) < 0) = (s = - 1)"
      using P0 by (simp add: sx s_def)
    then have "s' = (if sint (iValue a) < 0 then - 1 else 1)"
      by (auto simp: s'_def s_def)
    then have "s' * Q - sint (iValue a) = s' * (Q - A)" "\<bar>s'\<bar> = 1"
      by (auto simp: A_def algebra_simps)
    then have "\<bar>s' * Q - sint (iValue a)\<bar> = \<bar>Q - A\<bar>"
      by (simp add: abs_mult)
    with rt(3,4) show ?thesis by simp
  qed
  show ?thesis
  proof (intro exI conjI)
    show "divide_TFixed (times_TFixed a b) b = Some (x\<lparr>iValue := q\<rparr>)"
      using d by (simp add: divide_TFixed_def x_def)
    show "\<bar>sint (RawValue (x\<lparr>iValue := q\<rparr>)) - sint (RawValue a)\<bar> \<le> 1"
      using close sr by (simp add: RawValue_def)
  qed
qed



lemma min_dividend_excluded:
  fixes B :: int
  assumes "0 < B"
  shows "((2147483648 * B + 32768) div 65536 * 65536 + B div 2) div B = 2147483648"
proof -
  have "2147483648 * B + 32768 = 32768 + (32768 * B) * 65536" by simp
  then have "(2147483648 * B + 32768) div 65536 = 32768 * B"
    by (simp only: round_unit_shift)
  moreover have "(B div 2 + 2147483648 * B) div B = (B div 2) div B + 2147483648"
    using assms by simp
  moreover have "(B div 2) div B = 0" using assms by (rule half_div_self)
  ultimately show ?thesis by (simp add: algebra_simps)
qed

text \<open>
  C6, as amended. For all \<open>TFixed\<close> values \<open>a\<close> and \<open>b\<close> with \<open>b\<close> of raw magnitude at
  least 21846 (a magnitude above one third) and with a product and a quotient whose
  rounded magnitudes, \<open>p = (|a| * |b| + 0x8000) >> 16\<close> and
  \<open>((p << 16) + (|b| >> 1)) / |b|\<close>, are below \<open>2^31\<close>, the quotient \<open>(a * b) / b\<close>
  exists and its raw value differs from that of \<open>a\<close> by at most 1.
\<close>

theorem round_trip_TFixed:
  assumes big: "21846 \<le> \<bar>sint (RawValue b)\<bar>"
    and fits: "(\<bar>sint (RawValue a)\<bar> * \<bar>sint (RawValue b)\<bar> + 32768) div 65536 < 2 ^ 31"
    and qfits: "((\<bar>sint (RawValue a)\<bar> * \<bar>sint (RawValue b)\<bar> + 32768) div 65536 * 65536
                  + \<bar>sint (RawValue b)\<bar> div 2) div \<bar>sint (RawValue b)\<bar> < 2 ^ 31"
  shows "\<exists>r. divide_TFixed (times_TFixed a b) b = Some r
             \<and> \<bar>sint (RawValue r) - sint (RawValue a)\<bar> \<le> 1"
proof (cases "sint (iValue b) = - (2 ^ 31)")
  case True
  note big' = big [unfolded RawValue_def] and fits' = fits [unfolded RawValue_def]
  from True have "word_of_int (sint (iValue b)) = (word_of_int (- (2 ^ 31)) :: 32 word)" by simp
  then have b: "iValue b = 0x80000000" by simp
  from True have ab: "\<bar>sint (iValue b)\<bar> = 2147483648" by simp
  have "(\<bar>sint (iValue a)\<bar> * 2147483648 + 32768) div 65536 < 2147483648"
    using fits' unfolding ab by simp
  moreover have "\<bar>sint (iValue a)\<bar> * 2147483648 + 32768
                   = 32768 + (\<bar>sint (iValue a)\<bar> * 32768) * 65536" by simp
  ultimately have "\<bar>sint (iValue a)\<bar> * 32768 < 2147483648"
    by (simp only: round_unit_shift)
  then have a: "\<bar>sint (iValue a)\<bar> < 65536" by simp
  have ix: "iValue (mul_assign a b) = word_of_int (sint (iValue a) * 32768)"
    by (rule mul_assign_min [OF b a])
  have "sint (iValue (mul_assign a b)) = sint (iValue a) * 32768"
    unfolding ix using a by (intro sint_wi32) simp_all
  from div_assign_min [OF b this a] show ?thesis
    unfolding divide_TFixed_def times_TFixed_def RawValue_def .
next
  case False
  note big' = big [unfolded RawValue_def] and fits' = fits [unfolded RawValue_def]
    and qfits' = qfits [unfolded RawValue_def]
  have a: "sint (iValue a) \<noteq> - (2 ^ 31)"
  proof
    assume "sint (iValue a) = - (2 ^ 31)"
    then have aa: "\<bar>sint (iValue a)\<bar> = 2147483648" by simp
    have "0 < \<bar>sint (iValue b)\<bar>" using big' by simp
    from min_dividend_excluded [OF this] qfits' show False
      unfolding aa by simp
  qed
  show ?thesis by (rule round_trip_in_range [OF a False big' fits' qfits'])
qed

theorem round_trip_TFixed_witness:
  "(\<exists>r. divide_TFixed (times_TFixed \<lparr>iValue = - 100000\<rparr> \<lparr>iValue = - 0x28000\<rparr>)
                       \<lparr>iValue = - 0x28000\<rparr> = Some r
       \<and> \<bar>sint (RawValue r) - sint (RawValue \<lparr>iValue = - 100000\<rparr>)\<bar> \<le> 1)
   \<and> (\<exists>r. divide_TFixed (times_TFixed \<lparr>iValue = 32768\<rparr> \<lparr>iValue = 21846\<rparr>)
                       \<lparr>iValue = 21846\<rparr> = Some r
       \<and> \<bar>sint (RawValue r) - sint (RawValue \<lparr>iValue = 32768\<rparr>)\<bar> \<le> 1)
   \<and> (\<exists>r. divide_TFixed (times_TFixed \<lparr>iValue = 3\<rparr> \<lparr>iValue = 0x80000000\<rparr>)
                       \<lparr>iValue = 0x80000000\<rparr> = Some r
       \<and> \<bar>sint (RawValue r) - sint (RawValue \<lparr>iValue = 3\<rparr>)\<bar> \<le> 1)"
proof -
  have big: "\<exists>r. divide_TFixed (times_TFixed \<lparr>iValue = - 100000\<rparr> \<lparr>iValue = - 0x28000\<rparr>)
                       \<lparr>iValue = - 0x28000\<rparr> = Some r
       \<and> \<bar>sint (RawValue r) - sint (RawValue \<lparr>iValue = - 100000\<rparr>)\<bar> \<le> 1"
    using round_trip_TFixed [of "\<lparr>iValue = - 0x28000\<rparr>" "\<lparr>iValue = - 100000\<rparr>"]
    by (simp add: RawValue_def)
  have small: "\<exists>r. divide_TFixed (times_TFixed \<lparr>iValue = 32768\<rparr> \<lparr>iValue = 21846\<rparr>)
                       \<lparr>iValue = 21846\<rparr> = Some r
       \<and> \<bar>sint (RawValue r) - sint (RawValue \<lparr>iValue = 32768\<rparr>)\<bar> \<le> 1"
    using round_trip_TFixed [of "\<lparr>iValue = 21846\<rparr>" "\<lparr>iValue = 32768\<rparr>"]
    by (simp add: RawValue_def)
  have least: "\<exists>r. divide_TFixed (times_TFixed \<lparr>iValue = 3\<rparr> \<lparr>iValue = 0x80000000\<rparr>)
                       \<lparr>iValue = 0x80000000\<rparr> = Some r
       \<and> \<bar>sint (RawValue r) - sint (RawValue \<lparr>iValue = 3\<rparr>)\<bar> \<le> 1"
    using round_trip_TFixed [of "\<lparr>iValue = 0x80000000\<rparr>" "\<lparr>iValue = 3\<rparr>"]
    by (simp add: RawValue_def)
  from big small least show ?thesis by blast
qed

text \<open>
  The claim as it stands fails for divisors of small magnitude, and where the product
  or the quotient does not fit. With the raw values 32768 and 21845 the quotient is
  32770, two units away from \<open>a\<close>; 21845 is the largest raw magnitude of a divisor for
  which this happens. With the raw values 100 and 1 the product rounds to zero and
  the quotient is zero. With \<open>0x7FFFFFFF\<close> times 2.0 the product does not fit, and
  with \<open>0x7FFFFFFF\<close> times 0.5 the quotient \<open>2^31\<close> does not.
\<close>

theorem round_trip_TFixed_counterexample:
  "divide_TFixed (times_TFixed \<lparr>iValue = 32768\<rparr> \<lparr>iValue = 21845\<rparr>) \<lparr>iValue = 21845\<rparr>
     = Some \<lparr>iValue = 32770\<rparr>
   \<and> divide_TFixed (times_TFixed \<lparr>iValue = 100\<rparr> \<lparr>iValue = 1\<rparr>) \<lparr>iValue = 1\<rparr>
     = Some \<lparr>iValue = 0\<rparr>
   \<and> divide_TFixed (times_TFixed \<lparr>iValue = 0x7FFFFFFF\<rparr> \<lparr>iValue = 0x20000\<rparr>)
                    \<lparr>iValue = 0x20000\<rparr>
     = Some \<lparr>iValue = - 1\<rparr>
   \<and> divide_TFixed (times_TFixed \<lparr>iValue = 0x7FFFFFFF\<rparr> \<lparr>iValue = 0x8000\<rparr>)
                    \<lparr>iValue = 0x8000\<rparr>
     = Some \<lparr>iValue = 0x80000000\<rparr>"
  by code_simp

section \<open>Converting the coordinates of a geometry object\<close>

lemma convert_loop_ok:
  "\<forall>c \<in> set cs. fst (f c) = 0 \<Longrightarrow>
   convert_loop f cs = (KErrorNone, map (\<lambda>c. snd (f c)) cs, cs)"
  by (induction cs) (simp_all add: case_prod_unfold Let_def)

lemma convert_loop_fail:
  "\<forall>c' \<in> set pre. fst (f c') = 0 \<Longrightarrow> fst (f c) \<noteq> 0 \<Longrightarrow>
   convert_loop f (pre @ c # post)
     = (fst (f c), map (\<lambda>c. snd (f c)) pre @ snd (f c) # post, pre @ [c])"
  by (induction pre) (simp_all add: case_prod_unfold Let_def)


text \<open>
  C8. \<open>ConvertCoords\<close> with the target coordinate type the geometry already has
  returns \<open>KErrorNone\<close>, calls the conversion function not at all and changes nothing.
  Otherwise it calls the function once for each contour, in index order: if every call
  succeeds the result is \<open>KErrorNone\<close>; if a call returns a nonzero error, that error
  is returned at once, the contours behind it being neither converted nor touched.
\<close>

theorem ConvertCoords_calls:
  "(m_coord_type g = t \<longrightarrow> ConvertCoords g t f = (KErrorNone, g, []))
   \<and> (m_coord_type g \<noteq> t \<and> (\<forall>c \<in> set (m_contour_array g). fst (f c) = 0) \<longrightarrow>
        ConvertCoords g t f =
          (KErrorNone,
           g\<lparr>m_contour_array := map (\<lambda>c. snd (f c)) (m_contour_array g), m_coord_type := t\<rparr>,
           m_contour_array g))
   \<and> (m_coord_type g \<noteq> t \<and> m_contour_array g = pre @ c # post
        \<and> (\<forall>c' \<in> set pre. fst (f c') = 0) \<and> fst (f c) \<noteq> 0 \<longrightarrow>
        ConvertCoords g t f =
          (fst (f c),
           g\<lparr>m_contour_array := map (\<lambda>c. snd (f c)) pre @ snd (f c) # post, m_coord_type := t\<rparr>,
           pre @ [c]))"
  by (simp add: ConvertCoords_def convert_loop_ok convert_loop_fail)

theorem ConvertCoords_calls_witness:
  "ConvertCoords \<lparr>m_contour_array = [[1, 2], [3], [4, 5 :: int]], m_coord_type = Map, m_closed = False\<rparr>
                 Map (\<lambda>c. (if c = [3] then 7 else 0, map (\<lambda>x. x * 10) c))
     = (KErrorNone,
        \<lparr>m_contour_array = [[1, 2], [3], [4, 5]], m_coord_type = Map, m_closed = False\<rparr>, [])
   \<and> ConvertCoords \<lparr>m_contour_array = [[1, 2], [4, 5 :: int]], m_coord_type = Map, m_closed = False\<rparr>
                   Degree (\<lambda>c. (if c = [3] then 7 else 0, map (\<lambda>x. x * 10) c))
     = (KErrorNone,
        \<lparr>m_contour_array = [[10, 20], [40, 50]], m_coord_type = Degree, m_closed = False\<rparr>,
        [[1, 2], [4, 5]])
   \<and> ConvertCoords \<lparr>m_contour_array = [[1, 2], [3], [4, 5 :: int]], m_coord_type = Map, m_closed = False\<rparr>
                   Degree (\<lambda>c. (if c = [3] then 7 else 0, map (\<lambda>x. x * 10) c))
     = (7,
        \<lparr>m_contour_array = [[10, 20], [30], [4, 5]], m_coord_type = Degree, m_closed = False\<rparr>,
        [[1, 2], [3]])"
proof -
  let ?f = "\<lambda>c :: int list. (if c = [3] then 7 :: nat else 0, map (\<lambda>x. x * 10) c)"
  have a: "ConvertCoords \<lparr>m_contour_array = [[1, 2], [3], [4, 5 :: int]], m_coord_type = Map, m_closed = False\<rparr>
                 Map ?f
     = (KErrorNone,
        \<lparr>m_contour_array = [[1, 2], [3], [4, 5]], m_coord_type = Map, m_closed = False\<rparr>, [])"
    using ConvertCoords_calls
      [of "\<lparr>m_contour_array = [[1, 2], [3], [4, 5 :: int]], m_coord_type = Map, m_closed = False\<rparr>"
          Map ?f, THEN conjunct1]
    by simp
  have b: "ConvertCoords \<lparr>m_contour_array = [[1, 2], [4, 5 :: int]], m_coord_type = Map, m_closed = False\<rparr>
                   Degree ?f
     = (KErrorNone,
        \<lparr>m_contour_array = [[10, 20], [40, 50]], m_coord_type = Degree, m_closed = False\<rparr>,
        [[1, 2], [4, 5]])"
    using ConvertCoords_calls
      [of "\<lparr>m_contour_array = [[1, 2], [4, 5 :: int]], m_coord_type = Map, m_closed = False\<rparr>"
          Degree ?f, THEN conjunct2, THEN conjunct1]
    by simp
  have c: "ConvertCoords \<lparr>m_contour_array = [[1, 2], [3], [4, 5 :: int]], m_coord_type = Map, m_closed = False\<rparr>
                   Degree ?f
     = (7,
        \<lparr>m_contour_array = [[10, 20], [30], [4, 5]], m_coord_type = Degree, m_closed = False\<rparr>,
        [[1, 2], [3]])"
    using ConvertCoords_calls
      [of "\<lparr>m_contour_array = [[1, 2], [3], [4, 5 :: int]], m_coord_type = Map, m_closed = False\<rparr>"
          Degree ?f "[[1, 2]]" "[3]" "[[4, 5]]", THEN conjunct2, THEN conjunct2]
    by simp
  from a b c show ?thesis by blast
qed

section \<open>When a geometry object has a contour\<close>





end
